theory Spec2Isabelle
  imports Main "HOL-Library.Word" "HOL-Library.Sublist"
begin

unbundle bit_operations_syntax

section \<open>Data model\<close>

text \<open>
  The package works on Go byte slices. A byte is an 8-bit word, a slice is a list. An
  \<open>asn1.ObjectIdentifier\<close> is a slice of Go ints, compared with \<open>Equal\<close> (same length,
  same elements), which is list equality; no arithmetic is done on the arcs, so they are
  unbounded integers here. The nil slice and the empty slice are both \<open>[]\<close>.
\<close>

type_synonym byte = "8 word"

type_synonym ObjectIdentifier = "int list"

definition PKCS7DataOID :: ObjectIdentifier where
  "PKCS7DataOID = [1, 2, 840, 113549, 1, 7, 1]"

definition PKCS7SignedDataOID :: ObjectIdentifier where
  "PKCS7SignedDataOID = [1, 2, 840, 113549, 1, 7, 2]"

definition PKCS7EnvelopedDataOID :: ObjectIdentifier where
  "PKCS7EnvelopedDataOID = [1, 2, 840, 113549, 1, 7, 3]"

definition PKCS7SignedAndEnvelopedOID :: ObjectIdentifier where
  "PKCS7SignedAndEnvelopedOID = [1, 2, 840, 113549, 1, 7, 4]"

definition PKCS7DigestedDataOID :: ObjectIdentifier where
  "PKCS7DigestedDataOID = [1, 2, 840, 113549, 1, 7, 5]"

definition PKCS7EncryptedDataOID :: ObjectIdentifier where
  "PKCS7EncryptedDataOID = [1, 2, 840, 113549, 1, 7, 6]"

definition PKCS12OID :: ObjectIdentifier where
  "PKCS12OID = [1, 2, 840, 113549, 1, 12, 10, 1]"

definition TypeEncryptedPKCS12 :: string where
  "TypeEncryptedPKCS12 = ''Encrypted PKCS#12''"

text \<open>\<open>asn1.RawValue\<close>, with the zero value a Go struct has before it is filled.\<close>

record RawValue =
  Class :: nat
  Tag :: nat
  IsCompound :: bool
  Bytes :: "byte list"
  FullBytes :: "byte list"

definition zeroRawValue :: RawValue where
  "zeroRawValue = \<lparr>Class = 0, Tag = 0, IsCompound = False, Bytes = [], FullBytes = []\<rparr>"

text \<open>\<open>ContentInfo\<close>: the OID and the optional content, explicitly tagged 0.\<close>

record ContentInfo =
  ContentType :: ObjectIdentifier
  Content :: RawValue

text \<open>
  \<open>DetectionResult\<close> of the variant with the encrypted-container fallback. The field
  is called \<open>ContentType\<close> in the source; the record field is \<open>ResultContentType\<close>
  because \<open>ContentInfo\<close> has the name already.
\<close>

record DetectionResult =
  Type :: string
  ResultContentType :: ObjectIdentifier
  IsEncrypted :: bool

text \<open>\<open>DetectionResult\<close> of the basic variant, which has no \<open>IsEncrypted\<close> field.\<close>

record DetectionResult_basic =
  Type_basic :: string
  ContentType_basic :: ObjectIdentifier

section \<open>Go primitives\<close>

text \<open>
  An index expression \<open>data[i]\<close> and a slice expression \<open>data[lo:hi]\<close> panic out of
  range. The result \<open>None\<close> is the panic, so that every function of the package that
  indexes returns an option and "never panics" is a statement about its result. (Go
  checks the upper bound of a slice expression against the capacity; the length is used
  here, which panics at least as often.)
\<close>

definition index :: "'a list \<Rightarrow> int \<Rightarrow> 'a option" where
  "index xs i = (if 0 \<le> i \<and> i < int (length xs) then Some (xs ! nat i) else None)"

definition slice :: "'a list \<Rightarrow> int \<Rightarrow> int \<Rightarrow> 'a list option" where
  "slice xs lo hi =
     (if 0 \<le> lo \<and> lo \<le> hi \<and> hi \<le> int (length xs)
      then Some (take (nat hi - nat lo) (drop (nat lo) xs)) else None)"

text \<open>
  \<open>bytes.Contains(b, sub)\<close> of the standard library reports whether \<open>sub\<close> occurs in
  \<open>b\<close> as a contiguous run; \<open>bytes.Equal\<close> is equality of the contents.
\<close>

definition Contains :: "byte list \<Rightarrow> byte list \<Rightarrow> bool" where
  "Contains b sub = sublist sub b"

text \<open>\<open>strconv.Itoa\<close>: the decimal digits, with a minus sign for a negative number.\<close>

definition digit :: "nat \<Rightarrow> char" where
  "digit d = ''0123456789'' ! d"

fun digits :: "nat \<Rightarrow> string" where
  "digits n = (if n < 10 then [digit n] else digits (n div 10) @ [digit (n mod 10)])"

declare digits.simps [simp del]

definition Itoa :: "int \<Rightarrow> string" where
  "Itoa i = (if i < 0 then CHR ''-'' # digits (nat (- i)) else digits (nat i))"

text \<open>\<open>ObjectIdentifier.String\<close>: the arcs in decimal, separated by dots.\<close>

fun OID_String :: "ObjectIdentifier \<Rightarrow> string" where
  "OID_String [] = []"
| "OID_String [v] = Itoa v"
| "OID_String (v # w # vs) = Itoa v @ CHR ''.'' # OID_String (w # vs)"

section \<open>The strict ASN.1 parse\<close>

text \<open>
  \<open>Detect\<close> calls \<open>asn1.Unmarshal(data, &contentInfo)\<close> of Go's standard library
  \<open>encoding/asn1\<close>, which is not part of the package's sources. The definitions of
  this section follow the library's DER reader on the one type it is called at,
  \<open>ContentInfo\<close>: a constructed universal SEQUENCE holding an OBJECT IDENTIFIER and an
  optional element with the explicit context tag 0, kept as a \<open>RawValue\<close>. Bytes after
  the sequence, and after the recognised elements inside it, are ignored.
\<close>

datatype asn1_error =
    SequenceTruncated
  | TruncatedTagOrLength
  | NonMinimalTag
  | IndefiniteLength
  | LengthTooLarge
  | SuperfluousLeadingZeros
  | NonMinimalLength
  | Base128TooLarge
  | Base128NotMinimal
  | Base128Truncated
  | TagsDontMatch
  | DataTruncated
  | ZeroLengthOID
  | ExplicitTagHasNoChild
  | InternalError

record tagAndLength =
  tclass :: nat
  ttag :: nat
  tlength :: nat
  isCompound :: bool

text \<open>
  Modelled from the spec: \<open>parseBase128Int\<close> of \<open>encoding/asn1\<close> (absent from the
  sources), the "base-128 continuations with the high bit as the continuation flag". At
  most five bytes are read, the first must not be \<open>0x80\<close>, and the value must fit 31
  bits. The accumulator is a 64-bit integer in Go; it holds at most 35 bits.
\<close>

function parseBase128Int_loop ::
  "byte list \<Rightarrow> nat \<Rightarrow> nat \<Rightarrow> nat \<Rightarrow> asn1_error + (nat \<times> nat)" where
  "parseBase128Int_loop bytes offset shifted ret64 =
     (if offset < length bytes then
        (if shifted = 5 then Inl Base128TooLarge
         else
           let b = bytes ! offset in
           if shifted = 0 \<and> b = 0x80 then Inl Base128NotMinimal
           else
             let ret64' = ret64 * 128 + unat (b AND 0x7F) in
             if b AND 0x80 = 0 then
               (if ret64' > 2147483647 then Inl Base128TooLarge
                else Inr (ret64', offset + 1))
             else parseBase128Int_loop bytes (offset + 1) (shifted + 1) ret64')
      else Inl Base128Truncated)"
  by pat_completeness auto
termination
  by (relation "measure (\<lambda>(bytes, offset, shifted, ret64). length bytes - offset)") auto

declare parseBase128Int_loop.simps [simp del]

definition parseBase128Int :: "byte list \<Rightarrow> nat \<Rightarrow> asn1_error + (nat \<times> nat)" where
  "parseBase128Int bytes initOffset = parseBase128Int_loop bytes initOffset 0 0"

text \<open>
  Modelled from the spec: the long-form length loop of \<open>parseTagAndLength\<close> (absent
  from the sources): \<open>numBytes\<close> big-endian bytes, no leading zero byte, and a length
  that would pass 31 bits is refused.
\<close>

fun parseLength_loop :: "byte list \<Rightarrow> nat \<Rightarrow> nat \<Rightarrow> nat \<Rightarrow> asn1_error + (nat \<times> nat)" where
  "parseLength_loop bytes 0 offset len = Inr (len, offset)"
| "parseLength_loop bytes (Suc n) offset len =
     (if offset \<ge> length bytes then Inl TruncatedTagOrLength
      else if len \<ge> 2 ^ 23 then Inl LengthTooLarge
      else
        let len' = len * 256 + unat (bytes ! offset) in
        if len' = 0 then Inl SuperfluousLeadingZeros
        else parseLength_loop bytes n (offset + 1) len')"

text \<open>
  Modelled from the spec: \<open>parseTagAndLength\<close> of \<open>encoding/asn1\<close> (absent from the
  sources): "read tag byte", then "read length (short-form single byte if <0x80, else
  long-form with byte-count prefix)". The class is the top two bits of the tag byte, the
  constructed flag is bit \<open>0x20\<close>, the tag number the low five bits, or a base-128
  number of at least 31 when they are all set. The indefinite form and a long form for
  a length under 128 are refused.
\<close>

definition parseTagAndLength ::
  "byte list \<Rightarrow> nat \<Rightarrow> asn1_error + (tagAndLength \<times> nat)" where
  "parseTagAndLength bytes initOffset =
     (if initOffset \<ge> length bytes then Inl InternalError
      else
        let b = bytes ! initOffset;
            offset = initOffset + 1;
            cls = unat (drop_bit 6 b);
            cmp = (b AND 0x20 = 0x20);
            tg = unat (b AND 0x1F)
        in
        case (if tg = 0x1F then
                (case parseBase128Int bytes offset of
                   Inl e \<Rightarrow> Inl e
                 | Inr (t, offset') \<Rightarrow> if t < 0x1F then Inl NonMinimalTag else Inr (t, offset'))
              else Inr (tg, offset)) of
          Inl e \<Rightarrow> Inl e
        | Inr (tg', offset1) \<Rightarrow>
            if offset1 \<ge> length bytes then Inl TruncatedTagOrLength
            else
              let b1 = bytes ! offset1;
                  offset2 = offset1 + 1
              in
              if b1 AND 0x80 = 0 then
                Inr (\<lparr>tclass = cls, ttag = tg', tlength = unat (b1 AND 0x7F), isCompound = cmp\<rparr>,
                     offset2)
              else
                let numBytes = unat (b1 AND 0x7F) in
                if numBytes = 0 then Inl IndefiniteLength
                else
                  (case parseLength_loop bytes numBytes offset2 0 of
                     Inl e \<Rightarrow> Inl e
                   | Inr (len, offset3) \<Rightarrow>
                       if len < 0x80 then Inl NonMinimalLength
                       else Inr (\<lparr>tclass = cls, ttag = tg', tlength = len, isCompound = cmp\<rparr>,
                                 offset3)))"

text \<open>\<open>invalidLength\<close>: the declared length runs past the end of the slice.\<close>

definition invalidLength :: "nat \<Rightarrow> nat \<Rightarrow> nat \<Rightarrow> bool" where
  "invalidLength offset len sliceLength = (offset + len > sliceLength)"

text \<open>
  A successful \<open>parseBase128Int\<close> consumes at least one byte and stays inside the
  slice; the loop of \<open>parseObjectIdentifier\<close> terminates by it.
\<close>

lemma parseBase128Int_loop_offset:
  "parseBase128Int_loop bytes offset shifted ret64 = Inr (v, offset') \<Longrightarrow>
   offset < offset' \<and> offset' \<le> length bytes"
proof (induction bytes offset shifted ret64 rule: parseBase128Int_loop.induct)
  case (1 bytes offset shifted ret64)
  from "1.prems" have inside: "offset < length bytes" and notfive: "shifted \<noteq> 5"
    by (auto simp: parseBase128Int_loop.simps [of bytes offset shifted ret64]
        split: if_splits)
  show ?case
  proof (cases "bytes ! offset AND 0x80 = 0")
    case True
    with "1.prems" inside notfive show ?thesis
      by (auto simp: parseBase128Int_loop.simps [of bytes offset shifted ret64] Let_def
          split: if_splits)
  next
    case False
    with "1.prems" inside notfive
    have notmin: "\<not> (shifted = 0 \<and> bytes ! offset = 0x80)"
      and rec: "parseBase128Int_loop bytes (offset + 1) (shifted + 1)
                  (ret64 * 128 + unat (bytes ! offset AND 0x7F)) = Inr (v, offset')"
      by (auto simp: parseBase128Int_loop.simps [of bytes offset shifted ret64] Let_def
          split: if_splits)
    from "1.IH" [OF inside notfive refl notmin refl False rec] show ?thesis
      by simp
  qed
qed

lemma parseBase128Int_offset:
  "parseBase128Int bytes offset = Inr (v, offset') \<Longrightarrow>
   offset < offset' \<and> offset' \<le> length bytes"
  unfolding parseBase128Int_def by (rule parseBase128Int_loop_offset)

text \<open>
  Modelled from the spec: \<open>parseObjectIdentifier\<close> of \<open>encoding/asn1\<close> (absent from
  the sources): "first byte encodes first two arcs via arc0*40+arc1, subsequent bytes are
  base-128 continuations". The first number is itself read in base 128; from 80 on it
  stands for the arcs 2 and \<open>v - 80\<close>. The loop reads one arc per round until the bytes
  are used up.
\<close>

function parseObjectIdentifier_loop ::
  "byte list \<Rightarrow> nat \<Rightarrow> ObjectIdentifier \<Rightarrow> asn1_error + ObjectIdentifier" where
  "parseObjectIdentifier_loop bytes offset s =
     (if offset < length bytes then
        (case parseBase128Int bytes offset of
           Inl e \<Rightarrow> Inl e
         | Inr (v, offset') \<Rightarrow> parseObjectIdentifier_loop bytes offset' (s @ [int v]))
      else Inr s)"
  by pat_completeness auto
termination
proof (relation "measure (\<lambda>(bytes, offset, s). length bytes - offset)")
  show "wf (measure (\<lambda>(bytes, offset, s). length bytes - offset))"
    by simp
next
  fix bytes :: "byte list" and offset :: nat and s :: ObjectIdentifier
    and x2 :: "nat \<times> nat" and v offset' :: nat
  assume "offset < length bytes" and "parseBase128Int bytes offset = Inr x2"
    and "(v, offset') = x2"
  then have "offset < offset' \<and> offset' \<le> length bytes"
    using parseBase128Int_offset [of bytes offset v offset'] by simp
  then show "((bytes, offset', s @ [int v]), (bytes, offset, s))
      \<in> measure (\<lambda>(bytes, offset, s). length bytes - offset)"
    by auto
qed

declare parseObjectIdentifier_loop.simps [simp del]

definition parseObjectIdentifier :: "byte list \<Rightarrow> asn1_error + ObjectIdentifier" where
  "parseObjectIdentifier bytes =
     (if length bytes = 0 then Inl ZeroLengthOID
      else
        case parseBase128Int bytes 0 of
          Inl e \<Rightarrow> Inl e
        | Inr (v, offset) \<Rightarrow>
            parseObjectIdentifier_loop bytes offset
              (if v < 80 then [int (v div 40), int (v mod 40)] else [2, int v - 80]))"

text \<open>
  Modelled from the spec: \<open>parseField\<close> of \<open>encoding/asn1\<close> (absent from the sources)
  at the field \<open>ContentType asn1.ObjectIdentifier\<close>: "read next tag/length as OBJECT
  IDENTIFIER (0x06)". The element is required, universal, primitive, with tag 6, and its
  length must fit the sequence.
\<close>

definition parseField_ContentType ::
  "byte list \<Rightarrow> nat \<Rightarrow> asn1_error + (ObjectIdentifier \<times> nat)" where
  "parseField_ContentType bytes initOffset =
     (if initOffset = length bytes then Inl SequenceTruncated
      else
        case parseTagAndLength bytes initOffset of
          Inl e \<Rightarrow> Inl e
        | Inr (t, offset) \<Rightarrow>
            if tclass t \<noteq> 0 \<or> ttag t \<noteq> 6 \<or> isCompound t then Inl TagsDontMatch
            else if invalidLength offset (tlength t) (length bytes) then Inl DataTruncated
            else
              (case parseObjectIdentifier (take (tlength t) (drop offset bytes)) of
                 Inl e \<Rightarrow> Inl e
               | Inr oid \<Rightarrow> Inr (oid, offset + tlength t)))"

text \<open>
  Modelled from the spec: \<open>parseField\<close> of \<open>encoding/asn1\<close> (absent from the sources)
  at the field \<open>Content asn1.RawValue `asn1:"explicit,optional,tag:0"`\<close>: "if bytes
  remain within the outer sequence's declared length, attempt to read a context-specific
  tag matching explicit tag 0"; the payload is captured and not interpreted, and an
  element with another tag counts as the optional field being absent. A tag or length
  that cannot be read, an element that ends the sequence right after its header, and a
  payload longer than the sequence are errors.
\<close>

definition parseField_Content ::
  "byte list \<Rightarrow> nat \<Rightarrow> asn1_error + (RawValue \<times> nat)" where
  "parseField_Content bytes initOffset =
     (if initOffset = length bytes then Inr (zeroRawValue, initOffset)
      else
        case parseTagAndLength bytes initOffset of
          Inl e \<Rightarrow> Inl e
        | Inr (t, offset) \<Rightarrow>
            if offset = length bytes then Inl ExplicitTagHasNoChild
            else if tclass t = 2 \<and> ttag t = 0 \<and> (tlength t = 0 \<or> isCompound t) then
              (if invalidLength offset (tlength t) (length bytes) then Inl DataTruncated
               else
                 Inr (\<lparr>Class = tclass t, Tag = ttag t, IsCompound = isCompound t,
                       Bytes = take (tlength t) (drop offset bytes),
                       FullBytes = take (offset + tlength t - initOffset) (drop initOffset bytes)\<rparr>,
                      offset + tlength t))
            else Inr (zeroRawValue, initOffset))"

text \<open>
  Modelled from the spec: \<open>asn1.Unmarshal\<close> of \<open>encoding/asn1\<close> (absent from the
  sources) at a \<open>ContentInfo\<close>: "read tag byte; if not SEQUENCE(0x30, constructed),
  fail", then the length, "only insufficient length is an error, not excess", then the two
  fields inside the sequence's bytes. The bytes after the sequence (the \<open>rest\<close> that
  \<open>Detect\<close> drops) are not returned.
\<close>

definition Unmarshal :: "byte list \<Rightarrow> asn1_error + ContentInfo" where
  "Unmarshal b =
     (if length b = 0 then Inl SequenceTruncated
      else
        case parseTagAndLength b 0 of
          Inl e \<Rightarrow> Inl e
        | Inr (t, offset) \<Rightarrow>
            if tclass t \<noteq> 0 \<or> ttag t \<noteq> 16 \<or> \<not> isCompound t then Inl TagsDontMatch
            else if invalidLength offset (tlength t) (length b) then Inl DataTruncated
            else
              (let innerBytes = take (tlength t) (drop offset b) in
               (case parseField_ContentType innerBytes 0 of
                  Inl e \<Rightarrow> Inl e
                | Inr (oid, innerOffset) \<Rightarrow>
                    (case parseField_Content innerBytes innerOffset of
                       Inl e \<Rightarrow> Inl e
                     | Inr (raw, innerOffset') \<Rightarrow>
                         Inr \<lparr>ContentType = oid, Content = raw\<rparr>))))"

section \<open>The heuristic scan\<close>

text \<open>
  The byte patterns the package searches for. The string literals of the source are
  written as their UTF-8 bytes, which is what \<open>[]byte("...")\<close> holds.
\<close>

definition versionBytes :: "byte list" where
  "versionBytes = [0x02, 0x01, 0x03]"

definition pkcs12Signature :: "byte list" where
  "pkcs12Signature = [0x2A, 0x86, 0x48, 0x86, 0xF7, 0x0D, 0x01, 0x0C, 0x0A, 0x01]"

definition kazakhstanSignature :: "byte list" where
  "kazakhstanSignature = [0x06, 0x09, 0x2A, 0x86, 0x48, 0x86, 0xF7, 0x0D, 0x01, 0x01]"

text \<open>\<open>"KEY"\<close> and \<open>"PrivateKey"\<close>.\<close>

definition KEY :: "byte list" where
  "KEY = [0x4B, 0x45, 0x59]"

definition PrivateKey :: "byte list" where
  "PrivateKey = [0x50, 0x72, 0x69, 0x76, 0x61, 0x74, 0x65, 0x4B, 0x65, 0x79]"

text \<open>\<open>"GOST"\<close>, \<open>"gost"\<close> and the Cyrillic spelling (four letters, two bytes each).\<close>

definition GOST :: "byte list" where
  "GOST = [0x47, 0x4F, 0x53, 0x54]"

definition gost :: "byte list" where
  "gost = [0x67, 0x6F, 0x73, 0x74]"

definition GOST_cyrillic :: "byte list" where
  "GOST_cyrillic = [0xD0, 0x93, 0xD0, 0x9E, 0xD0, 0xA1, 0xD0, 0xA2]"

text \<open>\<open>"Kalkan"\<close>, \<open>"kalkan"\<close>, \<open>"KALKAN"\<close> and the Cyrillic spelling (six letters).\<close>

definition Kalkan :: "byte list" where
  "Kalkan = [0x4B, 0x61, 0x6C, 0x6B, 0x61, 0x6E]"

definition kalkan :: "byte list" where
  "kalkan = [0x6B, 0x61, 0x6C, 0x6B, 0x61, 0x6E]"

definition KALKAN :: "byte list" where
  "KALKAN = [0x4B, 0x41, 0x4C, 0x4B, 0x41, 0x4E]"

definition Kalkan_cyrillic :: "byte list" where
  "Kalkan_cyrillic = [0xD0, 0x9A, 0xD0, 0xB0, 0xD0, 0xBB, 0xD0, 0xBA, 0xD0, 0xB0, 0xD0, 0xBD]"

text \<open>
  The loop that looks for the version pattern, the same text in \<open>isEncryptedPKCS12\<close>
  and in the scanning \<open>IsUserKeyPKCS12\<close>:
  \<^verbatim>\<open>for i := 0; i < len(data)-len(versionBytes); i++ {
      if bytes.Equal(data[i:i+len(versionBytes)], versionBytes) { versionFound = true; break }
  }\<close>
  \<open>versionLoop data i\<close> is the loop from index \<open>i\<close> on and returns the final
  \<open>versionFound\<close>. The index is a Go int, and the bound is computed in the integers.
\<close>

function versionLoop :: "byte list \<Rightarrow> int \<Rightarrow> bool option" where
  "versionLoop data i =
     (if i < int (length data) - int (length versionBytes) then
        (case slice data i (i + int (length versionBytes)) of
           None \<Rightarrow> None
         | Some window \<Rightarrow>
             if window = versionBytes then Some True else versionLoop data (i + 1))
      else Some False)"
  by pat_completeness auto
termination
  by (relation "measure (\<lambda>(data, i). nat (int (length data) - i))") auto

declare versionLoop.simps [simp del]

text \<open>\<open>isEncryptedPKCS12\<close> (the variant with the encrypted-container fallback).\<close>

definition isEncryptedPKCS12 :: "byte list \<Rightarrow> bool option" where
  "isEncryptedPKCS12 data =
     (if length data < 20 then Some False
      else
        case index data 0 of
          None \<Rightarrow> None
        | Some b0 \<Rightarrow>
            if b0 \<noteq> 0x30 then Some False
            else
              (case versionLoop data 0 of
                 None \<Rightarrow> None
               | Some versionFound \<Rightarrow>
                   if \<not> versionFound then Some False
                   else if Contains data pkcs12Signature then Some True
                   else if Contains data KEY \<or> Contains data PrivateKey then Some True
                   else Some (versionFound \<and> length data > 100 \<and> length data < 100000)))"

section \<open>Detection, with the encrypted-container fallback\<close>

text \<open>
  The error \<open>Detect\<close> returns wraps the parse error:
  \<open>fmt.Errorf("failed to parse ASN.1 structure: %w", err)\<close>.
\<close>

datatype error = FailedToParse asn1_error

definition Detect :: "byte list \<Rightarrow> (error + DetectionResult) option" where
  "Detect data =
     (case Unmarshal data of
        Inr contentInfo \<Rightarrow>
          Some (Inr \<lparr>Type =
                       (if ContentType contentInfo = PKCS7DataOID then ''PKCS#7 Data''
                        else if ContentType contentInfo = PKCS7SignedDataOID
                          then ''PKCS#7 Signed Data''
                        else if ContentType contentInfo = PKCS7EnvelopedDataOID
                          then ''PKCS#7 Enveloped Data''
                        else if ContentType contentInfo = PKCS7SignedAndEnvelopedOID
                          then ''PKCS#7 Signed And Enveloped Data''
                        else if ContentType contentInfo = PKCS7DigestedDataOID
                          then ''PKCS#7 Digested Data''
                        else if ContentType contentInfo = PKCS7EncryptedDataOID
                          then ''PKCS#7 Encrypted Data''
                        else if ContentType contentInfo = PKCS12OID then ''PKCS#12''
                        else ''Unknown OID: '' @ OID_String (ContentType contentInfo)),
                     ResultContentType = ContentType contentInfo,
                     IsEncrypted = False\<rparr>)
      | Inl err \<Rightarrow>
          (case isEncryptedPKCS12 data of
             None \<Rightarrow> None
           | Some True \<Rightarrow>
               Some (Inr \<lparr>Type = TypeEncryptedPKCS12, ResultContentType = [],
                          IsEncrypted = True\<rparr>)
           | Some False \<Rightarrow> Some (Inl (FailedToParse err))))"

definition IsPKCS7Data :: "byte list \<Rightarrow> bool option" where
  "IsPKCS7Data data =
     (case Detect data of
        None \<Rightarrow> None
      | Some (Inl err) \<Rightarrow> Some False
      | Some (Inr result) \<Rightarrow> Some (ResultContentType result = PKCS7DataOID))"

definition IsPKCS7SignedData :: "byte list \<Rightarrow> bool option" where
  "IsPKCS7SignedData data =
     (case Detect data of
        None \<Rightarrow> None
      | Some (Inl err) \<Rightarrow> Some False
      | Some (Inr result) \<Rightarrow> Some (ResultContentType result = PKCS7SignedDataOID))"

definition IsPKCS7EnvelopedData :: "byte list \<Rightarrow> bool option" where
  "IsPKCS7EnvelopedData data =
     (case Detect data of
        None \<Rightarrow> None
      | Some (Inl err) \<Rightarrow> Some False
      | Some (Inr result) \<Rightarrow> Some (ResultContentType result = PKCS7EnvelopedDataOID))"

definition IsPKCS12 :: "byte list \<Rightarrow> bool option" where
  "IsPKCS12 data =
     (case Detect data of
        None \<Rightarrow> None
      | Some (Inl err) \<Rightarrow> Some False
      | Some (Inr result) \<Rightarrow>
          Some (ResultContentType result = PKCS12OID \<or> Type result = TypeEncryptedPKCS12))"

text \<open>\<open>IsUserKeyPKCS12\<close> of this variant delegates to \<open>Detect\<close>.\<close>

definition IsUserKeyPKCS12 :: "byte list \<Rightarrow> bool option" where
  "IsUserKeyPKCS12 data =
     (case Detect data of
        None \<Rightarrow> None
      | Some (Inl err) \<Rightarrow> Some False
      | Some (Inr result) \<Rightarrow>
          Some (ResultContentType result = PKCS12OID \<or> Type result = TypeEncryptedPKCS12))"

definition GetOIDDescription :: "ObjectIdentifier \<Rightarrow> string" where
  "GetOIDDescription oid =
     (if oid = PKCS7DataOID then ''PKCS#7 Data''
      else if oid = PKCS7SignedDataOID then ''PKCS#7 Signed Data''
      else if oid = PKCS7EnvelopedDataOID then ''PKCS#7 Enveloped Data''
      else if oid = PKCS7SignedAndEnvelopedOID then ''PKCS#7 Signed And Enveloped Data''
      else if oid = PKCS7DigestedDataOID then ''PKCS#7 Digested Data''
      else if oid = PKCS7EncryptedDataOID then ''PKCS#7 Encrypted Data''
      else if oid = PKCS12OID then ''PKCS#12''
      else ''Unknown OID: '' @ OID_String oid)"

section \<open>The basic variant and the scanning key predicates\<close>

text \<open>
  \<open>detector.go\<close> holds the basic \<open>Detect\<close>, which has no fallback, with its
  predicates, and the key-container predicates that scan the bytes themselves. The basic
  functions carry the suffix \<open>_basic\<close>, the scanning \<open>IsUserKeyPKCS12\<close> the suffix
  \<open>_scan\<close>. The basic functions index nothing and cannot panic.
\<close>

definition Detect_basic :: "byte list \<Rightarrow> error + DetectionResult_basic" where
  "Detect_basic data =
     (case Unmarshal data of
        Inl err \<Rightarrow> Inl (FailedToParse err)
      | Inr contentInfo \<Rightarrow>
          Inr \<lparr>Type_basic =
                 (if ContentType contentInfo = PKCS7DataOID then ''PKCS#7 Data''
                  else if ContentType contentInfo = PKCS7SignedDataOID
                    then ''PKCS#7 Signed Data''
                  else if ContentType contentInfo = PKCS7EnvelopedDataOID
                    then ''PKCS#7 Enveloped Data''
                  else if ContentType contentInfo = PKCS7SignedAndEnvelopedOID
                    then ''PKCS#7 Signed And Enveloped Data''
                  else if ContentType contentInfo = PKCS7DigestedDataOID
                    then ''PKCS#7 Digested Data''
                  else if ContentType contentInfo = PKCS7EncryptedDataOID
                    then ''PKCS#7 Encrypted Data''
                  else if ContentType contentInfo = PKCS12OID then ''PKCS#12''
                  else ''Unknown OID: '' @ OID_String (ContentType contentInfo)),
               ContentType_basic = ContentType contentInfo\<rparr>)"

definition IsPKCS7Data_basic :: "byte list \<Rightarrow> bool" where
  "IsPKCS7Data_basic data =
     (case Detect_basic data of
        Inl err \<Rightarrow> False
      | Inr result \<Rightarrow> ContentType_basic result = PKCS7DataOID)"

definition IsPKCS7SignedData_basic :: "byte list \<Rightarrow> bool" where
  "IsPKCS7SignedData_basic data =
     (case Detect_basic data of
        Inl err \<Rightarrow> False
      | Inr result \<Rightarrow> ContentType_basic result = PKCS7SignedDataOID)"

definition IsPKCS7EnvelopedData_basic :: "byte list \<Rightarrow> bool" where
  "IsPKCS7EnvelopedData_basic data =
     (case Detect_basic data of
        Inl err \<Rightarrow> False
      | Inr result \<Rightarrow> ContentType_basic result = PKCS7EnvelopedDataOID)"

definition IsPKCS12_basic :: "byte list \<Rightarrow> bool" where
  "IsPKCS12_basic data =
     (case Detect_basic data of
        Inl err \<Rightarrow> False
      | Inr result \<Rightarrow> ContentType_basic result = PKCS12OID)"

text \<open>The scanning \<open>IsUserKeyPKCS12\<close>, with its own copy of the version loop.\<close>

definition IsUserKeyPKCS12_scan :: "byte list \<Rightarrow> bool option" where
  "IsUserKeyPKCS12_scan data =
     (if length data < 8 then Some False
      else
        case index data 0 of
          None \<Rightarrow> None
        | Some b0 \<Rightarrow>
            if b0 \<noteq> 0x30 then Some False
            else if (case Detect_basic data of
                       Inl err \<Rightarrow> False
                     | Inr result \<Rightarrow> ContentType_basic result = PKCS12OID)
              then Some True
            else
              (case versionLoop data 0 of
                 None \<Rightarrow> None
               | Some versionFound \<Rightarrow>
                   if \<not> versionFound then Some False
                   else if length data < 20 \<or> length data > 100000 then Some False
                   else if Contains data GOST \<or> Contains data GOST_cyrillic
                           \<or> Contains data gost then Some True
                   else if Contains data pkcs12Signature then Some True
                   else if Contains data KEY \<or> Contains data PrivateKey then Some True
                   else Some versionFound))"

definition IsNCAKeyPKCS12 :: "byte list \<Rightarrow> bool option" where
  "IsNCAKeyPKCS12 data =
     (case IsUserKeyPKCS12_scan data of
        None \<Rightarrow> None
      | Some False \<Rightarrow> Some False
      | Some True \<Rightarrow>
          if Contains data GOST \<or> Contains data GOST_cyrillic then Some True
          else if Contains data Kalkan \<or> Contains data kalkan \<or> Contains data KALKAN
                  \<or> Contains data Kalkan_cyrillic then Some True
          else Some (Contains data kazakhstanSignature))"

text \<open>
  The policy that the scanning \<open>IsUserKeyPKCS12\<close> is compared with: at least 8 bytes,
  the first one \<open>0x30\<close>, and either the strict parse yields the PKCS#12 OID or the
  version loop reports the pattern found and the length is 20 to 100000 bytes. No marker
  substring occurs in it.
\<close>

definition IsUserKeyPKCS12_policy :: "byte list \<Rightarrow> bool" where
  "IsUserKeyPKCS12_policy data =
     (length data \<ge> 8 \<and> take 1 data = [0x30]
      \<and> ((case Unmarshal data of
             Inl err \<Rightarrow> False
           | Inr contentInfo \<Rightarrow> ContentType contentInfo = PKCS12OID)
          \<or> (versionLoop data 0 = Some True \<and> 20 \<le> length data \<and> length data \<le> 100000)))"

section \<open>Envelopes and test buffers\<close>

text \<open>
  Modelled from the spec: \<open>asn1.Marshal\<close> of \<open>encoding/asn1\<close> (absent from the
  sources) at a \<open>ContentInfo\<close>, used by the tests' \<open>createTestData\<close> to build "a
  minimal valid envelope with content-type O": the SEQUENCE tag \<open>0x30\<close>, the length,
  the OBJECT IDENTIFIER (tag \<open>0x06\<close>, first two arcs as \<open>arc0*40+arc1\<close>, every number
  in base 128 with the high bit on all bytes but the last), then the content element.
\<close>

fun base128_continued :: "nat \<Rightarrow> byte list" where
  "base128_continued n =
     (if n = 0 then []
      else base128_continued (n div 128) @ [word_of_nat (n mod 128) OR 0x80])"

declare base128_continued.simps [simp del]

definition appendBase128Int :: "nat \<Rightarrow> byte list" where
  "appendBase128Int n = base128_continued (n div 128) @ [word_of_nat (n mod 128)]"

fun appendLength :: "nat \<Rightarrow> byte list" where
  "appendLength n =
     (if n < 256 then [word_of_nat n]
      else appendLength (n div 256) @ [word_of_nat (n mod 256)])"

declare appendLength.simps [simp del]

definition encodeLength :: "nat \<Rightarrow> byte list" where
  "encodeLength n =
     (if n \<ge> 128 then (0x80 OR word_of_nat (length (appendLength n))) # appendLength n
      else [word_of_nat n])"

definition encodeObjectIdentifier :: "ObjectIdentifier \<Rightarrow> byte list" where
  "encodeObjectIdentifier oid =
     (let body = appendBase128Int (nat (oid ! 0 * 40 + oid ! 1))
                 @ concat (map (\<lambda>v. appendBase128Int (nat v)) (drop 2 oid))
      in 0x06 # encodeLength (length body) @ body)"

text \<open>
  \<open>encodeContentInfo oid content\<close>: the envelope with the OID and the already encoded
  content element; \<open>content = []\<close> gives the envelope that holds the OID alone.
\<close>

definition encodeContentInfo :: "ObjectIdentifier \<Rightarrow> byte list \<Rightarrow> byte list" where
  "encodeContentInfo oid content =
     (let body = encodeObjectIdentifier oid @ content
      in 0x30 # encodeLength (length body) @ body)"

text \<open>
  \<open>createTestData\<close> of the tests: the content is the context tag 0, constructed, around
  the bytes \<open>04 02 DE AD\<close>.
\<close>

definition createTestData :: "ObjectIdentifier \<Rightarrow> byte list" where
  "createTestData oid = encodeContentInfo oid [0xA0, 0x04, 0x04, 0x02, 0xDE, 0xAD]"

text \<open>The OIDs the package knows, in the order of its \<open>var\<close> block.\<close>

definition knownOIDs :: "ObjectIdentifier list" where
  "knownOIDs =
     [PKCS7DataOID, PKCS7SignedDataOID, PKCS7EnvelopedDataOID, PKCS7SignedAndEnvelopedOID,
      PKCS7DigestedDataOID, PKCS7EncryptedDataOID, PKCS12OID]"

text \<open>
  The buffers of the tests: \<open>createMockPKCS12Key\<close> (48 bytes, with \<open>"KEY"\<close>),
  \<open>mockP12\<close> and \<open>mockNCAP12\<close> (with \<open>"GOST"\<close>, the second with \<open>"Kalkan"\<close> too),
  \<open>genericP12\<close> (with \<open>"KEY"\<close> only) and \<open>invalidData\<close>. Each of the first four
  starts with a SEQUENCE header that declares 256 bytes, more than the buffer holds.
\<close>

definition createMockPKCS12Key :: "byte list" where
  "createMockPKCS12Key =
     [0x30, 0x82, 0x01, 0x00, 0x02, 0x01, 0x03, 0x30, 0x82, 0x00, 0x50,
      0x04, 0x20,
      0, 1, 2, 3, 4, 5, 6, 7, 8, 9, 10, 11, 12, 13, 14, 15,
      16, 17, 18, 19, 20, 21, 22, 23, 24, 25, 26, 27, 28, 29, 30, 31,
      0x4B, 0x45, 0x59]"

definition mockP12 :: "byte list" where
  "mockP12 =
     [0x30, 0x82, 0x01, 0x00, 0x02, 0x01, 0x03, 0x30, 0x82, 0x00, 0x50,
      0x04, 0x08, 0x01, 0x02, 0x03, 0x04, 0x05, 0x06, 0x07, 0x08,
      0x47, 0x4F, 0x53, 0x54,
      0x4B, 0x45, 0x59]"

definition mockNCAP12 :: "byte list" where
  "mockNCAP12 =
     [0x30, 0x82, 0x01, 0x00, 0x02, 0x01, 0x03, 0x30, 0x82, 0x00, 0x50,
      0x04, 0x08, 0x01, 0x02, 0x03, 0x04, 0x05, 0x06, 0x07, 0x08,
      0x47, 0x4F, 0x53, 0x54,
      0x4B, 0x61, 0x6C, 0x6B, 0x61, 0x6E,
      0x4B, 0x45, 0x59]"

definition genericP12 :: "byte list" where
  "genericP12 =
     [0x30, 0x82, 0x01, 0x00, 0x02, 0x01, 0x03, 0x30, 0x82, 0x00, 0x50,
      0x04, 0x08, 0x01, 0x02, 0x03, 0x04, 0x05, 0x06, 0x07, 0x08,
      0x04, 0x02, 0xDE, 0xAD,
      0x4B, 0x45, 0x59]"

definition invalidData :: "byte list" where
  "invalidData = [0x01, 0x02, 0x03]"

text \<open>
  Three more buffers. \<open>unmarkedP12\<close> is \<open>genericP12\<close> without its \<open>"KEY"\<close>:
  25 bytes with the version pattern and no marker substring. \<open>paddedP12\<close> has the
  version pattern and 100 zero bytes, 104 bytes in all, again with no marker.
  \<open>mixedCaseP12\<close> is \<open>genericP12\<close> with \<open>"kAlKaN"\<close> in the place of \<open>"KEY"\<close>.
\<close>

definition unmarkedP12 :: "byte list" where
  "unmarkedP12 =
     [0x30, 0x82, 0x01, 0x00, 0x02, 0x01, 0x03, 0x30, 0x82, 0x00, 0x50,
      0x04, 0x08, 0x01, 0x02, 0x03, 0x04, 0x05, 0x06, 0x07, 0x08,
      0x04, 0x02, 0xDE, 0xAD]"

definition paddedP12 :: "byte list" where
  "paddedP12 = [0x30, 0x02, 0x01, 0x03] @ replicate 100 0"

definition mixedCaseP12 :: "byte list" where
  "mixedCaseP12 =
     [0x30, 0x82, 0x01, 0x00, 0x02, 0x01, 0x03, 0x30, 0x82, 0x00, 0x50,
      0x04, 0x08, 0x01, 0x02, 0x03, 0x04, 0x05, 0x06, 0x07, 0x08,
      0x04, 0x02, 0xDE, 0xAD,
      0x6B, 0x41, 0x6C, 0x4B, 0x61, 0x4E]"

text \<open>
  \<open>wrappedKey\<close> is a well-formed PKCS#7 Data envelope of 24 bytes whose content holds
  the version pattern and \<open>"KEY"\<close>: \<open>30 16 | 06 09 (1.2.840.113549.1.7.1) | A0 09 |
  02 01 03 | 04 04 "KEY" 00\<close>. \<open>versionLast\<close> is 20 bytes that start with \<open>0x30\<close> and
  end with the version pattern.
\<close>

definition wrappedKey :: "byte list" where
  "wrappedKey =
     [0x30, 0x16, 0x06, 0x09, 0x2A, 0x86, 0x48, 0x86, 0xF7, 0x0D, 0x01, 0x07, 0x01,
      0xA0, 0x09, 0x02, 0x01, 0x03, 0x04, 0x04, 0x4B, 0x45, 0x59, 0x00]"

definition versionLast :: "byte list" where
  "versionLast =
     [0x30, 0x82, 0x01, 0x00, 0x4B, 0x45, 0x59, 0, 0, 0, 0, 0, 0, 0, 0, 0, 0,
      0x02, 0x01, 0x03]"

section \<open>Evaluation on concrete buffers\<close>

text \<open>
  The equations that unfold the parse and the scan on a buffer given byte by byte. The
  recursive ones rewrite under a decided condition only, so the simplifier stops.
\<close>

lemma parseLength_loop_unfold:
  "parseLength_loop bytes n offset len =
     (if n = 0 then Inr (len, offset)
      else if offset \<ge> length bytes then Inl TruncatedTagOrLength
      else if len \<ge> 2 ^ 23 then Inl LengthTooLarge
      else if len * 256 + unat (bytes ! offset) = 0 then Inl SuperfluousLeadingZeros
      else parseLength_loop bytes (n - 1) (offset + 1) (len * 256 + unat (bytes ! offset)))"
  by (cases n) (simp_all add: Let_def)

lemmas asn1_eval =
  parseLength_loop_unfold Unmarshal_def parseField_ContentType_def parseField_Content_def parseTagAndLength_def
  invalidLength_def parseObjectIdentifier_def parseObjectIdentifier_loop.simps
  parseBase128Int_def parseBase128Int_loop.simps zeroRawValue_def

lemmas scan_eval =
  versionLoop.simps slice_def index_def versionBytes_def Contains_def sublist_code
  pkcs12Signature_def kazakhstanSignature_def KEY_def PrivateKey_def GOST_def gost_def
  GOST_cyrillic_def Kalkan_def kalkan_def KALKAN_def Kalkan_cyrillic_def

lemmas oid_eval =
  PKCS7DataOID_def PKCS7SignedDataOID_def PKCS7EnvelopedDataOID_def
  PKCS7SignedAndEnvelopedOID_def PKCS7DigestedDataOID_def PKCS7EncryptedDataOID_def
  PKCS12OID_def TypeEncryptedPKCS12_def


lemmas encode_eval =
  createTestData_def encodeContentInfo_def encodeObjectIdentifier_def encodeLength_def
  appendLength.simps appendBase128Int_def base128_continued.simps

lemmas predicate_eval =
  IsPKCS7Data_def IsPKCS7SignedData_def IsPKCS7EnvelopedData_def IsPKCS12_def
  IsUserKeyPKCS12_def Detect_def isEncryptedPKCS12_def GetOIDDescription_def
  IsPKCS7Data_basic_def IsPKCS7SignedData_basic_def IsPKCS7EnvelopedData_basic_def
  IsPKCS12_basic_def Detect_basic_def IsUserKeyPKCS12_scan_def IsNCAKeyPKCS12_def

section \<open>The version loop\<close>

text \<open>
  The loop never slices out of range, so it always returns; and it finds the pattern
  exactly when the pattern starts at an index \<open>j\<close> with \<open>j + 3 < len(data)\<close>, that is,
  when it occurs in the buffer without its last byte.
\<close>

lemma versionLoop_returns: "0 \<le> i \<Longrightarrow> \<exists>found. versionLoop data i = Some found"
proof (induction data i rule: versionLoop.induct)
  case (1 data i)
  show ?case
  proof (cases "i < int (length data) - int (length versionBytes)")
    case False
    then show ?thesis by (auto simp: versionLoop.simps [of data i])
  next
    case True
    then have s: "slice data i (i + int (length versionBytes))
        = Some (take (length versionBytes) (drop (nat i) data))"
      using "1.prems" by (simp add: slice_def nat_add_distrib)
    show ?thesis
    proof (cases "take (length versionBytes) (drop (nat i) data) = versionBytes")
      case eq: True
      with True s show ?thesis
        by (auto simp: versionLoop.simps [of data i])
    next
      case ne: False
      from "1.IH" [OF True s ne] "1.prems"
      obtain found where "versionLoop data (i + 1) = Some found" by auto
      with True s ne show ?thesis
        by (simp add: versionLoop.simps [of data i])
    qed
  qed
qed

lemma versionLoop_found_iff:
  "0 \<le> i \<Longrightarrow>
   versionLoop data i = Some True \<longleftrightarrow>
   (\<exists>j. nat i \<le> j \<and> j + 3 < length data \<and> take 3 (drop j data) = versionBytes)"
proof (induction data i rule: versionLoop.induct)
  case (1 data i)
  have len3: "length versionBytes = 3" by (simp add: versionBytes_def)
  show ?case
  proof (cases "i < int (length data) - int (length versionBytes)")
    case False
    then have "versionLoop data i = Some False"
      by (simp add: versionLoop.simps [of data i])
    moreover from False "1.prems" have "\<not> (\<exists>j. nat i \<le> j \<and> j + 3 < length data)"
      by (auto simp: len3)
    ultimately show ?thesis by auto
  next
    case True
    then have s: "slice data i (i + int (length versionBytes))
        = Some (take (length versionBytes) (drop (nat i) data))"
      using "1.prems" by (simp add: slice_def nat_add_distrib)
    from True "1.prems" have here: "nat i + 3 < length data" by (simp add: len3)
    show ?thesis
    proof (cases "take (length versionBytes) (drop (nat i) data) = versionBytes")
      case eq: True
      with True s have "versionLoop data i = Some True"
        by (simp add: versionLoop.simps [of data i])
      moreover from eq here
      have "\<exists>j. nat i \<le> j \<and> j + 3 < length data \<and> take 3 (drop j data) = versionBytes"
        by (intro exI [of _ "nat i"]) (simp add: len3)
      ultimately show ?thesis by simp
    next
      case ne: False
      from True s ne have step: "versionLoop data i = versionLoop data (i + 1)"
        by (simp add: versionLoop.simps [of data i])
      from "1.IH" [OF True s ne] "1.prems"
      have ih: "versionLoop data (i + 1) = Some True \<longleftrightarrow>
         (\<exists>j. nat (i + 1) \<le> j \<and> j + 3 < length data \<and> take 3 (drop j data) = versionBytes)"
        by simp
      have "(\<exists>j. nat (i + 1) \<le> j \<and> j + 3 < length data \<and> take 3 (drop j data) = versionBytes)
          \<longleftrightarrow> (\<exists>j. nat i \<le> j \<and> j + 3 < length data \<and> take 3 (drop j data) = versionBytes)"
      proof
        assume "\<exists>j. nat (i + 1) \<le> j \<and> j + 3 < length data
                  \<and> take 3 (drop j data) = versionBytes"
        then obtain j where "nat (i + 1) \<le> j" "j + 3 < length data"
          "take 3 (drop j data) = versionBytes"
          by blast
        with "1.prems"
        show "\<exists>j. nat i \<le> j \<and> j + 3 < length data \<and> take 3 (drop j data) = versionBytes"
          by (intro exI [of _ j]) auto
      next
        assume "\<exists>j. nat i \<le> j \<and> j + 3 < length data \<and> take 3 (drop j data) = versionBytes"
        then obtain j where j: "nat i \<le> j" "j + 3 < length data"
          "take 3 (drop j data) = versionBytes"
          by blast
        with ne have "j \<noteq> nat i" by (auto simp: len3)
        with j "1.prems" have "nat (i + 1) \<le> j" by (simp add: nat_add_distrib)
        with j show "\<exists>j. nat (i + 1) \<le> j \<and> j + 3 < length data
                       \<and> take 3 (drop j data) = versionBytes"
          by blast
      qed
      with step ih show ?thesis by simp
    qed
  qed
qed

lemma sublist_iff_window:
  "sublist xs ys \<longleftrightarrow> (\<exists>j. j + length xs \<le> length ys \<and> take (length xs) (drop j ys) = xs)"
proof
  assume "sublist xs ys"
  then obtain ps ss where "ys = ps @ xs @ ss" by (auto simp: sublist_def)
  then show "\<exists>j. j + length xs \<le> length ys \<and> take (length xs) (drop j ys) = xs"
    by (intro exI [of _ "length ps"]) simp
next
  assume "\<exists>j. j + length xs \<le> length ys \<and> take (length xs) (drop j ys) = xs"
  then obtain j where j: "j + length xs \<le> length ys" "take (length xs) (drop j ys) = xs"
    by blast
  have "ys = take j ys @ take (length xs) (drop j ys) @ drop (length xs) (drop j ys)"
    by (simp only: append_take_drop_id)
  with j have "ys = take j ys @ xs @ drop (length xs) (drop j ys)" by simp
  then show "sublist xs ys" unfolding sublist_def by blast
qed

lemma versionLoop_butlast:
  "versionLoop data 0 = Some (Contains (butlast data) versionBytes)"
proof -
  have len3: "length versionBytes = 3" by (simp add: versionBytes_def)
  have "Contains (butlast data) versionBytes \<longleftrightarrow>
      (\<exists>j. j + 3 < length data \<and> take 3 (drop j data) = versionBytes)"
  proof -
    have "take 3 (drop j (butlast data)) = take 3 (drop j data)" if "j + 3 < length data" for j
      using that by (simp add: butlast_conv_take drop_take)
    moreover have "j + 3 \<le> length data - 1 \<longleftrightarrow> j + 3 < length data" for j
      by auto
    ultimately show ?thesis
      unfolding Contains_def sublist_iff_window len3 by auto
  qed
  moreover from versionLoop_found_iff [of 0 data]
  have "versionLoop data 0 = Some True \<longleftrightarrow>
      (\<exists>j. j + 3 < length data \<and> take 3 (drop j data) = versionBytes)"
    by simp
  moreover from versionLoop_returns [of 0 data]
  obtain found where "versionLoop data 0 = Some found" by auto
  ultimately show ?thesis by auto
qed

section \<open>What a successful strict parse needs\<close>

lemma tag_byte_sequence:
  fixes b :: byte
  assumes "unat (drop_bit 6 b) = 0" and "b AND 0x20 = 0x20" and "unat (b AND 0x1F) = 16"
  shows "b = 0x30"
proof -
  have m5: "b AND 0x1F = take_bit 5 b"
    using take_bit_eq_mask [of 5 b] by (simp add: mask_eq_exp_minus_1)
  have low: "unat b mod 32 = 16"
    using assms(3) unfolding m5
    by (simp add: unsigned_take_bit_eq take_bit_eq_mod unat_mod_distrib)
  have "unat b div 64 = 0"
    using assms(1) by (simp add: unat_drop_bit_eq drop_bit_eq_div unat_div_distrib)
  then have "unat b < 64" by (simp add: div_eq_0_iff)
  then have "unat b div 32 = 0 \<or> unat b div 32 = 1"
    by (auto simp: less_Suc_eq_le dest: div_le_mono [of _ 63 32])
  moreover have "unat b = unat b div 32 * 32 + unat b mod 32" by simp
  ultimately have "unat b = 16 \<or> unat b = 48" using low by auto
  then have "b = 16 \<or> b = 48"
    by (simp add: word_unat_eq_iff)
  moreover have "b \<noteq> 16" using assms(2) by auto
  ultimately show ?thesis by simp
qed

lemma parseLength_loop_offset:
  "parseLength_loop bytes n offset len = Inr (l, offset') \<Longrightarrow> offset' = offset + n"
  by (induction bytes n offset len rule: parseLength_loop.induct)
     (auto simp: Let_def split: if_splits)

lemma parseTagAndLength_offset:
  assumes "parseTagAndLength bytes initOffset = Inr (t, offset)"
  shows "initOffset + 2 \<le> offset"
  using assms
  by (auto simp: parseTagAndLength_def Let_def split: if_splits sum.splits prod.splits
      dest!: parseBase128Int_offset parseLength_loop_offset)

lemma parseTagAndLength_sequence:
  assumes "parseTagAndLength bytes 0 = Inr (t, offset)"
    and "tclass t = 0" and "ttag t = 16" and "isCompound t"
  shows "bytes ! 0 = 0x30"
proof -
  from assms(1) have inside: "0 < length bytes"
    by (auto simp: parseTagAndLength_def split: if_splits)
  define b where "b = bytes ! 0"
  have low: "unat (b AND 0x1F) \<noteq> 0x1F"
  proof
    assume "unat (b AND 0x1F) = 0x1F"
    with assms(1) inside have "0x1F \<le> ttag t"
      by (auto simp: parseTagAndLength_def Let_def b_def
          split: if_splits sum.splits prod.splits)
    with assms(3) show False by simp
  qed
  with assms inside have "unat (drop_bit 6 b) = 0" and "b AND 0x20 = 0x20"
    and "unat (b AND 0x1F) = 16"
    by (auto simp: parseTagAndLength_def Let_def b_def
        split: if_splits sum.splits prod.splits)
  then show ?thesis
    unfolding b_def [symmetric] by (rule tag_byte_sequence)
qed

lemma Unmarshal_needs_sequence:
  assumes "Unmarshal data = Inr contentInfo"
  shows "3 \<le> length data \<and> take 1 data = [0x30]"
proof -
  from assms obtain t offset where
    tl: "parseTagAndLength data 0 = Inr (t, offset)"
    and tag: "tclass t = 0" "ttag t = 16" "isCompound t"
    and fits: "offset + tlength t \<le> length data"
    and inner: "\<exists>r. parseField_ContentType (take (tlength t) (drop offset data)) 0 = Inr r"
    by (auto simp: Unmarshal_def invalidLength_def Let_def
        split: if_splits sum.splits prod.splits)
  from inner have "take (tlength t) (drop offset data) \<noteq> []"
    by (auto simp: parseField_ContentType_def split: if_splits)
  with fits have "offset < length data" by auto
  moreover from tl have "2 \<le> offset" using parseTagAndLength_offset [of data 0 t offset] by simp
  ultimately have len: "3 \<le> length data" by simp
  moreover from tl tag have "data ! 0 = 0x30" by (rule parseTagAndLength_sequence)
  with len have "take 1 data = [0x30]"
    by (cases data) auto
  ultimately show ?thesis by simp
qed

section \<open>The heuristic predicates in closed form\<close>

lemma index_0: "index data 0 = (case data of [] \<Rightarrow> None | b # rest \<Rightarrow> Some b)"
  by (cases data) (simp_all add: index_def)

lemma isEncryptedPKCS12_closed:
  "isEncryptedPKCS12 data =
     Some (20 \<le> length data \<and> take 1 data = [0x30] \<and> Contains (butlast data) versionBytes
           \<and> (Contains data pkcs12Signature \<or> Contains data KEY \<or> Contains data PrivateKey
                \<or> (100 < length data \<and> length data < 100000)))"
proof (cases data)
  case Nil
  then show ?thesis by (simp add: isEncryptedPKCS12_def)
next
  case (Cons b rest)
  then show ?thesis
    by (auto simp: isEncryptedPKCS12_def index_0 versionLoop_butlast)
qed

lemma IsUserKeyPKCS12_scan_closed:
  "IsUserKeyPKCS12_scan data =
     Some (8 \<le> length data \<and> take 1 data = [0x30]
           \<and> ((case Unmarshal data of
                  Inl err \<Rightarrow> False
                | Inr contentInfo \<Rightarrow> ContentType contentInfo = PKCS12OID)
                \<or> (versionLoop data 0 = Some True
                    \<and> 20 \<le> length data \<and> length data \<le> 100000)))"
proof (cases data)
  case Nil
  then show ?thesis by (simp add: IsUserKeyPKCS12_scan_def)
next
  case (Cons b rest)
  have basic: "(case Detect_basic data of
                  Inl err \<Rightarrow> False
                | Inr result \<Rightarrow> ContentType_basic result = PKCS12OID)
      = (case Unmarshal data of
           Inl err \<Rightarrow> False
         | Inr contentInfo \<Rightarrow> ContentType contentInfo = PKCS12OID)"
    by (simp add: Detect_basic_def split: sum.splits)
  from Cons show ?thesis
    unfolding IsUserKeyPKCS12_scan_def basic
    by (auto simp: index_0 versionLoop_butlast)
qed

lemma Detect_parsed:
  "Unmarshal data = Inr contentInfo \<Longrightarrow>
   Detect data = Some (Inr \<lparr>Type = GetOIDDescription (ContentType contentInfo),
                            ResultContentType = ContentType contentInfo,
                            IsEncrypted = False\<rparr>)"
  by (simp add: Detect_def GetOIDDescription_def)

lemma Detect_fallback:
  "Unmarshal data = Inl err \<Longrightarrow>
   Detect data =
     (case isEncryptedPKCS12 data of
        None \<Rightarrow> None
      | Some True \<Rightarrow>
          Some (Inr \<lparr>Type = TypeEncryptedPKCS12, ResultContentType = [], IsEncrypted = True\<rparr>)
      | Some False \<Rightarrow> Some (Inl (FailedToParse err)))"
  by (simp add: Detect_def)

lemma GetOIDDescription_not_Encrypted: "GetOIDDescription oid \<noteq> TypeEncryptedPKCS12"
  by (simp add: GetOIDDescription_def TypeEncryptedPKCS12_def)

lemma Contains_set: "Contains data sub \<Longrightarrow> set sub \<subseteq> set data"
  unfolding Contains_def by (rule set_mono_sublist)

lemma Unmarshal_rejects:
  "length data < 3 \<or> take 1 data \<noteq> [0x30] \<Longrightarrow> \<exists>err. Unmarshal data = Inl err"
  using Unmarshal_needs_sequence [of data] by (cases "Unmarshal data") auto

lemma Detect_returns: "\<exists>outcome. Detect data = Some outcome"
  by (cases "Unmarshal data")
     (auto simp: Detect_parsed Detect_fallback isEncryptedPKCS12_closed split: bool.splits)

lemma IsNCAKeyPKCS12_returns: "\<exists>b. IsNCAKeyPKCS12 data = Some b"
  by (auto simp: IsNCAKeyPKCS12_def IsUserKeyPKCS12_scan_closed split: bool.splits)

lemma paddedP12_unmarked:
  "\<not> Contains paddedP12 pkcs12Signature" "\<not> Contains paddedP12 KEY"
  "\<not> Contains paddedP12 PrivateKey" "\<not> Contains paddedP12 GOST"
  "\<not> Contains paddedP12 GOST_cyrillic" "\<not> Contains paddedP12 gost"
  by (auto dest!: Contains_set
      simp: paddedP12_def pkcs12Signature_def KEY_def PrivateKey_def GOST_def
        GOST_cyrillic_def gost_def)

lemma paddedP12_version:
  "take 1 paddedP12 = [0x30]" "versionLoop paddedP12 0 = Some True" "length paddedP12 = 104"
  by (simp_all add: paddedP12_def versionLoop.simps slice_def versionBytes_def)

section \<open>Claims\<close>

text \<open>
  C1. For every OID of the known set (the six PKCS#7 OIDs and the PKCS#12 OID),
  \<open>Detect\<close> on a buffer that the strict parse accepts as an envelope with that
  content type returns, without an error, the result whose \<open>ContentType\<close> is the OID,
  whose \<open>Type\<close> is the canonical label of the OID and whose \<open>IsEncrypted\<close> is false.
\<close>

theorem C1_known_OIDs_detected:
  assumes "Unmarshal data = Inr contentInfo"
    and "(ContentType contentInfo, label)
           \<in> set [(PKCS7DataOID, ''PKCS#7 Data''),
                  (PKCS7SignedDataOID, ''PKCS#7 Signed Data''),
                  (PKCS7EnvelopedDataOID, ''PKCS#7 Enveloped Data''),
                  (PKCS7SignedAndEnvelopedOID, ''PKCS#7 Signed And Enveloped Data''),
                  (PKCS7DigestedDataOID, ''PKCS#7 Digested Data''),
                  (PKCS7EncryptedDataOID, ''PKCS#7 Encrypted Data''),
                  (PKCS12OID, ''PKCS#12'')]"
  shows "Detect data
           = Some (Inr \<lparr>Type = label, ResultContentType = ContentType contentInfo,
                        IsEncrypted = False\<rparr>)"
proof -
  from assms(2) have "GetOIDDescription (ContentType contentInfo) = label"
    by (auto simp: GetOIDDescription_def oid_eval)
  with Detect_parsed [OF assms(1)] show ?thesis by simp
qed

text \<open>
  The envelopes of the seven known OIDs, each with the OID alone and with the content
  element that \<open>createTestData\<close> adds, parse to their OID and are detected so.
\<close>

theorem C1_witness:
  "list_all
     (\<lambda>(oid, label).
        Detect (encodeContentInfo oid [])
          = Some (Inr \<lparr>Type = label, ResultContentType = oid, IsEncrypted = False\<rparr>)
        \<and> Detect (createTestData oid)
          = Some (Inr \<lparr>Type = label, ResultContentType = oid, IsEncrypted = False\<rparr>))
     [(PKCS7DataOID, ''PKCS#7 Data''),
      (PKCS7SignedDataOID, ''PKCS#7 Signed Data''),
      (PKCS7EnvelopedDataOID, ''PKCS#7 Enveloped Data''),
      (PKCS7SignedAndEnvelopedOID, ''PKCS#7 Signed And Enveloped Data''),
      (PKCS7DigestedDataOID, ''PKCS#7 Digested Data''),
      (PKCS7EncryptedDataOID, ''PKCS#7 Encrypted Data''),
      (PKCS12OID, ''PKCS#12'')]"
proof -
  have detected: "Detect data
      = Some (Inr \<lparr>Type = label, ResultContentType = oid, IsEncrypted = False\<rparr>)"
    if "\<exists>contentInfo. Unmarshal data = Inr contentInfo \<and> ContentType contentInfo = oid"
      and "(oid, label)
           \<in> set [(PKCS7DataOID, ''PKCS#7 Data''),
                  (PKCS7SignedDataOID, ''PKCS#7 Signed Data''),
                  (PKCS7EnvelopedDataOID, ''PKCS#7 Enveloped Data''),
                  (PKCS7SignedAndEnvelopedOID, ''PKCS#7 Signed And Enveloped Data''),
                  (PKCS7DigestedDataOID, ''PKCS#7 Digested Data''),
                  (PKCS7EncryptedDataOID, ''PKCS#7 Encrypted Data''),
                  (PKCS12OID, ''PKCS#12'')]"
    for data oid label
    using that C1_known_OIDs_detected [of data _ label] by blast
  show ?thesis
    apply (simp only: list.pred_inject prod.case)
    apply (intro conjI detected TrueI)
    apply (simp_all add: encode_eval oid_eval asn1_eval)
    done
qed

text \<open>
  C2, as stated: every buffer that starts with \<open>0x30\<close>, contains the bytes \<open>02 01 03\<close>
  and \<open>"KEY"\<close> and has 20 to 100000 bytes is classified as encrypted PKCS#12, and
  \<open>IsPKCS12\<close> is true on it. This fails on \<open>wrappedKey\<close>: the buffer meets every
  condition, the strict parse succeeds on it, and \<open>Detect\<close> reports PKCS#7 Data, not
  encrypted; \<open>IsPKCS12\<close> is false.
\<close>

theorem C2_counterexample:
  "take 1 wrappedKey = [0x30] \<and> Contains wrappedKey versionBytes \<and> Contains wrappedKey KEY
   \<and> 20 \<le> length wrappedKey \<and> length wrappedKey \<le> 100000
   \<and> Detect wrappedKey
       = Some (Inr \<lparr>Type = ''PKCS#7 Data'', ResultContentType = PKCS7DataOID,
                    IsEncrypted = False\<rparr>)
   \<and> IsPKCS12 wrappedKey = Some False"
  by (simp add: IsPKCS12_def Detect_def wrappedKey_def scan_eval oid_eval asn1_eval)

text \<open>
  C2, amended: for every buffer on which the strict parse fails, that starts with
  \<open>0x30\<close>, contains the bytes \<open>02 01 03\<close> before its last byte, contains \<open>"KEY"\<close> and
  has 20 to 100000 bytes, \<open>Detect\<close> returns the encrypted PKCS#12 result with
  \<open>IsEncrypted\<close> true, and \<open>IsPKCS12\<close> returns true.
\<close>

theorem C2_encrypted_when_parse_fails:
  assumes "Unmarshal data = Inl err"
    and "take 1 data = [0x30]"
    and "Contains (butlast data) versionBytes"
    and "Contains data KEY"
    and "20 \<le> length data" and "length data \<le> 100000"
  shows "Detect data
           = Some (Inr \<lparr>Type = TypeEncryptedPKCS12, ResultContentType = [],
                        IsEncrypted = True\<rparr>)
         \<and> IsPKCS12 data = Some True"
proof -
  from assms(2-5) have "isEncryptedPKCS12 data = Some True"
    by (simp add: isEncryptedPKCS12_closed)
  with assms(1) have "Detect data
      = Some (Inr \<lparr>Type = TypeEncryptedPKCS12, ResultContentType = [], IsEncrypted = True\<rparr>)"
    by (simp add: Detect_fallback)
  then show ?thesis by (simp add: IsPKCS12_def)
qed

text \<open>The buffer of \<open>TestEncryptedPKCS12Detection\<close> is such a buffer.\<close>

theorem C2_witness:
  "Unmarshal createMockPKCS12Key = Inl DataTruncated
   \<and> Detect createMockPKCS12Key
       = Some (Inr \<lparr>Type = TypeEncryptedPKCS12, ResultContentType = [], IsEncrypted = True\<rparr>)
   \<and> IsPKCS12 createMockPKCS12Key = Some True"
proof -
  have parse: "Unmarshal createMockPKCS12Key = Inl DataTruncated"
    by (simp add: createMockPKCS12Key_def asn1_eval)
  have "take 1 createMockPKCS12Key = [0x30]"
    and "Contains (butlast createMockPKCS12Key) versionBytes"
    and "Contains createMockPKCS12Key KEY"
    and "20 \<le> length createMockPKCS12Key" and "length createMockPKCS12Key \<le> 100000"
    by (simp_all add: createMockPKCS12Key_def scan_eval)
  with parse C2_encrypted_when_parse_fails [of createMockPKCS12Key DataTruncated]
  show ?thesis by blast
qed

text \<open>
  C3. The encrypted PKCS#12 outcome is reached through the fallback only: on every
  buffer on which the strict parse succeeds, \<open>Detect\<close> returns a result whose \<open>Type\<close>
  is not \<open>"Encrypted PKCS#12"\<close> and whose \<open>IsEncrypted\<close> is false; and when the parsed
  OID is the PKCS#12 OID, the \<open>Type\<close> is \<open>"PKCS#12"\<close>.
\<close>

theorem C3_parsed_never_encrypted:
  assumes "Unmarshal data = Inr contentInfo"
  shows "\<exists>result. Detect data = Some (Inr result)
           \<and> Type result \<noteq> TypeEncryptedPKCS12
           \<and> \<not> IsEncrypted result
           \<and> (ContentType contentInfo = PKCS12OID \<longrightarrow> Type result = ''PKCS#12'')"
proof -
  from assms have "Detect data
      = Some (Inr \<lparr>Type = GetOIDDescription (ContentType contentInfo),
                   ResultContentType = ContentType contentInfo, IsEncrypted = False\<rparr>)"
    by (rule Detect_parsed)
  moreover have "ContentType contentInfo = PKCS12OID
      \<longrightarrow> GetOIDDescription (ContentType contentInfo) = ''PKCS#12''"
    by (simp add: GetOIDDescription_def oid_eval)
  ultimately show ?thesis
    by (simp add: GetOIDDescription_not_Encrypted)
qed

text \<open>The test envelope with the PKCS#12 OID parses, and is classified \<open>"PKCS#12"\<close>.\<close>

theorem C3_witness:
  "Unmarshal (createTestData PKCS12OID)
     = Inr \<lparr>ContentType = PKCS12OID,
            Content = \<lparr>Class = 2, Tag = 0, IsCompound = True,
                       Bytes = [0x04, 0x02, 0xDE, 0xAD],
                       FullBytes = [0xA0, 0x04, 0x04, 0x02, 0xDE, 0xAD]\<rparr>\<rparr>
   \<and> (\<exists>result. Detect (createTestData PKCS12OID) = Some (Inr result)
         \<and> Type result \<noteq> TypeEncryptedPKCS12 \<and> \<not> IsEncrypted result
         \<and> Type result = ''PKCS#12'')"
proof -
  have parse: "Unmarshal (createTestData PKCS12OID)
     = Inr \<lparr>ContentType = PKCS12OID,
            Content = \<lparr>Class = 2, Tag = 0, IsCompound = True,
                       Bytes = [0x04, 0x02, 0xDE, 0xAD],
                       FullBytes = [0xA0, 0x04, 0x04, 0x02, 0xDE, 0xAD]\<rparr>\<rparr>"
    by (simp add: encode_eval oid_eval asn1_eval)
  from C3_parsed_never_encrypted [OF parse] parse show ?thesis
    by auto
qed

text \<open>
  C4. \<open>Detect\<close> and every boolean predicate return on every buffer (no index or
  slice expression panics, down to the empty buffer). On a buffer of fewer than 3 bytes,
  or whose first byte is not \<open>0x30\<close>, \<open>Detect\<close> returns an error (the fallback does
  not rescue it) and every predicate returns false. The basic functions, which cannot
  panic, are covered as well.
\<close>

theorem C4_total_and_rejected:
  "(\<exists>outcome. Detect data = Some outcome)
   \<and> (\<exists>b. IsPKCS7Data data = Some b) \<and> (\<exists>b. IsPKCS7SignedData data = Some b)
   \<and> (\<exists>b. IsPKCS7EnvelopedData data = Some b) \<and> (\<exists>b. IsPKCS12 data = Some b)
   \<and> (\<exists>b. IsUserKeyPKCS12 data = Some b) \<and> (\<exists>b. IsUserKeyPKCS12_scan data = Some b)
   \<and> (\<exists>b. IsNCAKeyPKCS12 data = Some b)
   \<and> (length data < 3 \<or> take 1 data \<noteq> [0x30] \<longrightarrow>
        (\<exists>err. Detect data = Some (Inl (FailedToParse err))
               \<and> Detect_basic data = Inl (FailedToParse err))
        \<and> IsPKCS7Data data = Some False \<and> IsPKCS7SignedData data = Some False
        \<and> IsPKCS7EnvelopedData data = Some False \<and> IsPKCS12 data = Some False
        \<and> IsUserKeyPKCS12 data = Some False \<and> IsUserKeyPKCS12_scan data = Some False
        \<and> IsNCAKeyPKCS12 data = Some False
        \<and> \<not> IsPKCS7Data_basic data \<and> \<not> IsPKCS7SignedData_basic data
        \<and> \<not> IsPKCS7EnvelopedData_basic data \<and> \<not> IsPKCS12_basic data)"
proof -
  obtain outcome where det: "Detect data = Some outcome"
    using Detect_returns by blast
  then have total: "(\<exists>b. IsPKCS7Data data = Some b) \<and> (\<exists>b. IsPKCS7SignedData data = Some b)
      \<and> (\<exists>b. IsPKCS7EnvelopedData data = Some b) \<and> (\<exists>b. IsPKCS12 data = Some b)
      \<and> (\<exists>b. IsUserKeyPKCS12 data = Some b)"
    by (auto simp: IsPKCS7Data_def IsPKCS7SignedData_def IsPKCS7EnvelopedData_def
        IsPKCS12_def IsUserKeyPKCS12_def split: sum.splits)
  have scan: "\<exists>b. IsUserKeyPKCS12_scan data = Some b"
    by (simp add: IsUserKeyPKCS12_scan_closed)
  have rejected: "(\<exists>err. Detect data = Some (Inl (FailedToParse err))
               \<and> Detect_basic data = Inl (FailedToParse err))
        \<and> IsPKCS7Data data = Some False \<and> IsPKCS7SignedData data = Some False
        \<and> IsPKCS7EnvelopedData data = Some False \<and> IsPKCS12 data = Some False
        \<and> IsUserKeyPKCS12 data = Some False \<and> IsUserKeyPKCS12_scan data = Some False
        \<and> IsNCAKeyPKCS12 data = Some False
        \<and> \<not> IsPKCS7Data_basic data \<and> \<not> IsPKCS7SignedData_basic data
        \<and> \<not> IsPKCS7EnvelopedData_basic data \<and> \<not> IsPKCS12_basic data"
    if bad: "length data < 3 \<or> take 1 data \<noteq> [0x30]"
  proof -
    from bad obtain err where parse: "Unmarshal data = Inl err"
      using Unmarshal_rejects by blast
    from bad have "isEncryptedPKCS12 data = Some False"
      by (auto simp: isEncryptedPKCS12_closed)
    with parse have d: "Detect data = Some (Inl (FailedToParse err))"
      by (simp add: Detect_fallback)
    from parse have b: "Detect_basic data = Inl (FailedToParse err)"
      by (simp add: Detect_basic_def)
    from bad parse have s: "IsUserKeyPKCS12_scan data = Some False"
      by (auto simp: IsUserKeyPKCS12_scan_closed)
    from d b s show ?thesis
      by (simp add: IsPKCS7Data_def IsPKCS7SignedData_def IsPKCS7EnvelopedData_def
          IsPKCS12_def IsUserKeyPKCS12_def IsNCAKeyPKCS12_def IsPKCS7Data_basic_def
          IsPKCS7SignedData_basic_def IsPKCS7EnvelopedData_basic_def IsPKCS12_basic_def)
  qed
  from det total scan IsNCAKeyPKCS12_returns [of data] rejected show ?thesis
    by blast
qed

theorem C4_witness:
  "(\<exists>err. Detect invalidData = Some (Inl (FailedToParse err)))
   \<and> IsPKCS7Data invalidData = Some False \<and> IsPKCS7SignedData invalidData = Some False
   \<and> IsPKCS7EnvelopedData invalidData = Some False \<and> IsPKCS12 invalidData = Some False
   \<and> IsUserKeyPKCS12 invalidData = Some False
   \<and> (\<exists>err. Detect [] = Some (Inl (FailedToParse err)))
   \<and> IsPKCS12 [] = Some False \<and> IsUserKeyPKCS12_scan [] = Some False
   \<and> IsNCAKeyPKCS12 [] = Some False"
proof -
  have "length invalidData < 3 \<or> take 1 invalidData \<noteq> [0x30]"
    by (simp add: invalidData_def)
  moreover have "length ([] :: byte list) < 3 \<or> take 1 ([] :: byte list) \<noteq> [0x30]"
    by simp
  ultimately show ?thesis
    using C4_total_and_rejected [of invalidData] C4_total_and_rejected [of "[]"]
    by blast
qed

text \<open>
  C5, as stated: on every buffer \<open>IsUserKeyPKCS12\<close> returns what \<open>IsPKCS12\<close> returns.
  This fails for the scanning \<open>IsUserKeyPKCS12\<close>: on \<open>unmarkedP12\<close> it returns true,
  while \<open>IsPKCS12\<close> returns false, in the basic variant and in the variant with the
  fallback.
\<close>

theorem C5_counterexample:
  "IsUserKeyPKCS12_scan unmarkedP12 = Some True
   \<and> \<not> IsPKCS12_basic unmarkedP12
   \<and> IsPKCS12 unmarkedP12 = Some False"
  by (simp add: unmarkedP12_def predicate_eval scan_eval oid_eval asn1_eval)

text \<open>
  C5, amended: the \<open>IsUserKeyPKCS12\<close> that delegates to \<open>Detect\<close> returns on every
  buffer what \<open>IsPKCS12\<close> of the same variant returns, and both are true exactly when
  \<open>Detect\<close> succeeds with the PKCS#12 OID or with the type \<open>"Encrypted PKCS#12"\<close>.
  (The scanning \<open>IsUserKeyPKCS12\<close> is a different predicate; C10 gives it.)
\<close>

theorem C5_delegating_IsUserKeyPKCS12_is_IsPKCS12:
  "IsUserKeyPKCS12 data = IsPKCS12 data
   \<and> (IsPKCS12 data = Some True \<longleftrightarrow>
        (\<exists>result. Detect data = Some (Inr result)
           \<and> (ResultContentType result = PKCS12OID \<or> Type result = TypeEncryptedPKCS12)))"
proof -
  obtain outcome where "Detect data = Some outcome"
    by (cases "Detect data")
       (auto simp: Detect_def isEncryptedPKCS12_closed split: sum.splits bool.splits)
  then show ?thesis
    by (cases outcome) (auto simp: IsUserKeyPKCS12_def IsPKCS12_def)
qed

text \<open>
  C6. The claim: the version check is a plain substring search, so that the scan
  reports the pattern \<open>02 01 03\<close> found wherever it occurs, also as the last three bytes
  of the buffer. The loop stops one index early (\<open>i < len(data)-len(versionBytes)\<close>):
  on \<open>versionLast\<close>, whose last three bytes are the pattern, it reports not found, and
  both heuristics and \<open>Detect\<close> reject the buffer, which has \<open>"KEY"\<close> and 20 bytes.
\<close>

theorem C6_final_offset_not_scanned:
  "take 1 versionLast = [0x30] \<and> length versionLast = 20
   \<and> Contains versionLast versionBytes \<and> Contains versionLast KEY
   \<and> versionLoop versionLast 0 = Some False
   \<and> isEncryptedPKCS12 versionLast = Some False
   \<and> IsUserKeyPKCS12_scan versionLast = Some False
   \<and> Detect versionLast = Some (Inl (FailedToParse DataTruncated))"
  by (simp add: versionLast_def predicate_eval scan_eval oid_eval asn1_eval)

text \<open>
  C7, as stated: a buffer that passes the structural gates (length floor, leading
  \<open>0x30\<close>, version pattern found) and has no marker substring still passes the
  general check when its length is roughly 20 to 100000 bytes. This fails for
  \<open>isEncryptedPKCS12\<close> on \<open>unmarkedP12\<close>, which has 25 bytes.
\<close>

theorem C7_counterexample:
  "20 \<le> length unmarkedP12 \<and> length unmarkedP12 \<le> 100000
   \<and> take 1 unmarkedP12 = [0x30] \<and> versionLoop unmarkedP12 0 = Some True
   \<and> \<not> Contains unmarkedP12 pkcs12Signature \<and> \<not> Contains unmarkedP12 KEY
   \<and> \<not> Contains unmarkedP12 PrivateKey \<and> \<not> Contains unmarkedP12 GOST
   \<and> \<not> Contains unmarkedP12 GOST_cyrillic \<and> \<not> Contains unmarkedP12 gost
   \<and> isEncryptedPKCS12 unmarkedP12 = Some False"
  by (simp add: unmarkedP12_def predicate_eval scan_eval)

text \<open>
  C7, amended: for a buffer of 20 to 100000 bytes that starts with \<open>0x30\<close>, on which
  the version loop reports the pattern found and which has no marker substring,
  \<open>isEncryptedPKCS12\<close> returns true exactly when the length is over 100 and under
  100000 bytes, and the scanning \<open>IsUserKeyPKCS12\<close> returns true.
\<close>

theorem C7_unmarked_buffer_by_size:
  assumes "take 1 data = [0x30]" and "versionLoop data 0 = Some True"
    and "\<not> Contains data pkcs12Signature" and "\<not> Contains data KEY"
    and "\<not> Contains data PrivateKey" and "\<not> Contains data GOST"
    and "\<not> Contains data GOST_cyrillic" and "\<not> Contains data gost"
    and "20 \<le> length data" and "length data \<le> 100000"
  shows "isEncryptedPKCS12 data = Some (100 < length data \<and> length data < 100000)
         \<and> IsUserKeyPKCS12_scan data = Some True"
proof -
  from assms(2) have "Contains (butlast data) versionBytes"
    by (simp add: versionLoop_butlast)
  with assms have "isEncryptedPKCS12 data = Some (100 < length data \<and> length data < 100000)"
    by (simp add: isEncryptedPKCS12_closed)
  moreover from assms have "IsUserKeyPKCS12_scan data = Some True"
    by (simp add: IsUserKeyPKCS12_scan_closed)
  ultimately show ?thesis by simp
qed

text \<open>A buffer of 104 bytes passes both checks, the one of 25 bytes the second only.\<close>

theorem C7_witness:
  "isEncryptedPKCS12 paddedP12 = Some True \<and> IsUserKeyPKCS12_scan paddedP12 = Some True
   \<and> isEncryptedPKCS12 unmarkedP12 = Some False
   \<and> IsUserKeyPKCS12_scan unmarkedP12 = Some True"
proof -
  have "take 1 unmarkedP12 = [0x30]" and "versionLoop unmarkedP12 0 = Some True"
    and "\<not> Contains unmarkedP12 pkcs12Signature" and "\<not> Contains unmarkedP12 KEY"
    and "\<not> Contains unmarkedP12 PrivateKey" and "\<not> Contains unmarkedP12 GOST"
    and "\<not> Contains unmarkedP12 GOST_cyrillic" and "\<not> Contains unmarkedP12 gost"
    and "length unmarkedP12 = 25"
    by (simp_all add: unmarkedP12_def scan_eval)
  then have small: "isEncryptedPKCS12 unmarkedP12 = Some False
      \<and> IsUserKeyPKCS12_scan unmarkedP12 = Some True"
    using C7_unmarked_buffer_by_size [of unmarkedP12] by simp
  have large: "isEncryptedPKCS12 paddedP12 = Some True
      \<and> IsUserKeyPKCS12_scan paddedP12 = Some True"
    using C7_unmarked_buffer_by_size [of paddedP12] paddedP12_unmarked paddedP12_version
    by simp
  from small large show ?thesis by simp
qed

text \<open>
  C8, as stated: a buffer that passes the general check and contains \<open>"GOST"\<close> or
  \<open>"Kalkan"\<close> in any letter case satisfies \<open>IsNCAKeyPKCS12\<close>. This fails on
  \<open>mixedCaseP12\<close>, which passes the scanning \<open>IsUserKeyPKCS12\<close> and contains
  \<open>"kAlKaN"\<close>.
\<close>

theorem C8_counterexample:
  "IsUserKeyPKCS12_scan mixedCaseP12 = Some True
   \<and> Contains mixedCaseP12 [0x6B, 0x41, 0x6C, 0x4B, 0x61, 0x4E]
   \<and> IsNCAKeyPKCS12 mixedCaseP12 = Some False"
  by (simp add: mixedCaseP12_def predicate_eval scan_eval oid_eval asn1_eval)

text \<open>
  C8, amended: a buffer that passes the scanning \<open>IsUserKeyPKCS12\<close> and contains
  \<open>"GOST"\<close>, its Cyrillic spelling, \<open>"Kalkan"\<close>, \<open>"kalkan"\<close>, \<open>"KALKAN"\<close> or the
  Cyrillic spelling of Kalkan satisfies \<open>IsNCAKeyPKCS12\<close>; a buffer that passes the
  scanning \<open>IsUserKeyPKCS12\<close> and contains none of these and not the byte signature
  \<open>06 09 2A 86 48 86 F7 0D 01 01\<close> does not.
\<close>

theorem C8_regional_markers:
  assumes "IsUserKeyPKCS12_scan data = Some True"
  shows "(Contains data GOST \<or> Contains data GOST_cyrillic \<or> Contains data Kalkan
          \<or> Contains data kalkan \<or> Contains data KALKAN \<or> Contains data Kalkan_cyrillic
          \<longrightarrow> IsNCAKeyPKCS12 data = Some True)
         \<and> (\<not> Contains data GOST \<and> \<not> Contains data GOST_cyrillic \<and> \<not> Contains data Kalkan
            \<and> \<not> Contains data kalkan \<and> \<not> Contains data KALKAN
            \<and> \<not> Contains data Kalkan_cyrillic \<and> \<not> Contains data kazakhstanSignature
            \<longrightarrow> IsNCAKeyPKCS12 data = Some False)"
  using assms by (simp add: IsNCAKeyPKCS12_def)

text \<open>The two buffers of \<open>TestIsNCAKeyPKCS12\<close>, one for each half.\<close>

theorem C8_witness:
  "IsUserKeyPKCS12_scan mockNCAP12 = Some True \<and> Contains mockNCAP12 GOST
   \<and> Contains mockNCAP12 Kalkan \<and> IsNCAKeyPKCS12 mockNCAP12 = Some True
   \<and> IsUserKeyPKCS12_scan genericP12 = Some True \<and> IsNCAKeyPKCS12 genericP12 = Some False"
proof -
  have nca: "IsUserKeyPKCS12_scan mockNCAP12 = Some True"
    by (simp add: mockNCAP12_def IsUserKeyPKCS12_scan_def Detect_basic_def scan_eval
        oid_eval asn1_eval)
  have marks: "Contains mockNCAP12 GOST" "Contains mockNCAP12 Kalkan"
    by (simp_all add: mockNCAP12_def scan_eval)
  have generic: "IsUserKeyPKCS12_scan genericP12 = Some True"
    by (simp add: genericP12_def IsUserKeyPKCS12_scan_def Detect_basic_def scan_eval
        oid_eval asn1_eval)
  have none: "\<not> Contains genericP12 GOST" "\<not> Contains genericP12 GOST_cyrillic"
    "\<not> Contains genericP12 Kalkan" "\<not> Contains genericP12 kalkan"
    "\<not> Contains genericP12 KALKAN" "\<not> Contains genericP12 Kalkan_cyrillic"
    "\<not> Contains genericP12 kazakhstanSignature"
    by (simp_all add: genericP12_def scan_eval)
  from C8_regional_markers [OF nca] C8_regional_markers [OF generic] nca marks generic none
  show ?thesis by blast
qed



text \<open>
  C10. In the scanning \<open>IsUserKeyPKCS12\<close> the marker checks (GOST, the PKCS#12 OID
  signature, \<open>"KEY"\<close>, \<open>"PrivateKey"\<close>) never change the result: on every buffer the
  function returns the value of the policy, (length at least 8) and (first byte
  \<open>0x30\<close>) and (the strict parse yields the PKCS#12 OID, or the version loop reports
  the pattern found and the length is 20 to 100000).
\<close>

theorem C10_scan_is_policy:
  "IsUserKeyPKCS12_scan data = Some (IsUserKeyPKCS12_policy data)"
  unfolding IsUserKeyPKCS12_policy_def by (rule IsUserKeyPKCS12_scan_closed)

text \<open>
  On \<open>mockP12\<close> of \<open>TestIsUserKeyPKCS12\<close> the policy holds (28 bytes, the version
  pattern at index 4), and the function returns true.
\<close>

theorem C10_witness:
  "IsUserKeyPKCS12_policy mockP12 \<and> IsUserKeyPKCS12_scan mockP12 = Some True"
proof -
  have "IsUserKeyPKCS12_policy mockP12"
    by (simp add: IsUserKeyPKCS12_policy_def mockP12_def asn1_eval versionLoop.simps
        slice_def versionBytes_def)
  with C10_scan_is_policy [of mockP12] show ?thesis
    by simp
qed

section \<open>Further properties\<close>

text \<open>
  The version loop is the substring search for \<open>02 01 03\<close> in the buffer without its
  last byte, and it never panics.
\<close>

theorem version_loop_is_search_without_last_byte:
  "versionLoop data 0 = Some (Contains (butlast data) versionBytes)"
  by (rule versionLoop_butlast)

text \<open>
  \<open>isEncryptedPKCS12\<close> in closed form: at least 20 bytes, the first one \<open>0x30\<close>, the
  version pattern before the last byte, and the PKCS#12 OID signature, \<open>"KEY"\<close>,
  \<open>"PrivateKey"\<close> or a length over 100 and under 100000.
\<close>

theorem isEncryptedPKCS12_in_closed_form:
  "isEncryptedPKCS12 data =
     Some (20 \<le> length data \<and> take 1 data = [0x30] \<and> Contains (butlast data) versionBytes
           \<and> (Contains data pkcs12Signature \<or> Contains data KEY \<or> Contains data PrivateKey
                \<or> (100 < length data \<and> length data < 100000)))"
  by (rule isEncryptedPKCS12_closed)

text \<open>
  When \<open>Detect\<close> fails, the error wraps the error of the strict parse, and the
  heuristic has rejected the buffer; and \<open>Detect\<close> fails in no other case.
\<close>

theorem Detect_error_is_parse_error:
  "Detect data = Some (Inl e) \<longleftrightarrow>
   (\<exists>err. e = FailedToParse err \<and> Unmarshal data = Inl err
          \<and> isEncryptedPKCS12 data = Some False)"
proof (cases "Unmarshal data")
  case (Inl err)
  then show ?thesis
    by (cases e) (auto simp: Detect_fallback isEncryptedPKCS12_closed split: bool.splits)
next
  case (Inr contentInfo)
  then show ?thesis
    by (simp add: Detect_parsed)
qed

text \<open>
  On a buffer that parses, each fixed-OID predicate says whether the parsed OID is its
  own, and the seven known OIDs are pairwise different: a predicate is true for its own
  OID only.
\<close>

theorem predicates_compare_the_parsed_OID:
  assumes "Unmarshal data = Inr contentInfo"
  shows "IsPKCS7Data data = Some (ContentType contentInfo = PKCS7DataOID)
         \<and> IsPKCS7SignedData data = Some (ContentType contentInfo = PKCS7SignedDataOID)
         \<and> IsPKCS7EnvelopedData data = Some (ContentType contentInfo = PKCS7EnvelopedDataOID)
         \<and> IsPKCS12 data = Some (ContentType contentInfo = PKCS12OID)
         \<and> distinct knownOIDs"
proof -
  have "distinct knownOIDs"
    by (simp add: knownOIDs_def oid_eval)
  with Detect_parsed [OF assms] show ?thesis
    by (simp add: IsPKCS7Data_def IsPKCS7SignedData_def IsPKCS7EnvelopedData_def
        IsPKCS12_def GetOIDDescription_not_Encrypted)
qed

theorem predicates_compare_the_parsed_OID_witness:
  "IsPKCS7Data (createTestData PKCS7SignedDataOID) = Some False
   \<and> IsPKCS7SignedData (createTestData PKCS7SignedDataOID) = Some True
   \<and> IsPKCS7EnvelopedData (createTestData PKCS7SignedDataOID) = Some False
   \<and> IsPKCS12 (createTestData PKCS7SignedDataOID) = Some False"
proof -
  have parse: "Unmarshal (createTestData PKCS7SignedDataOID)
     = Inr \<lparr>ContentType = PKCS7SignedDataOID,
            Content = \<lparr>Class = 2, Tag = 0, IsCompound = True,
                       Bytes = [0x04, 0x02, 0xDE, 0xAD],
                       FullBytes = [0xA0, 0x04, 0x04, 0x02, 0xDE, 0xAD]\<rparr>\<rparr>"
    by (simp add: encode_eval oid_eval asn1_eval)
  from predicates_compare_the_parsed_OID [OF parse] show ?thesis
    by (simp add: oid_eval)
qed

end
